theory Spec2Isabelle
  imports Complex_Main "HOL-Library.Monad_Syntax"
begin

section \<open>Floating-point values\<close>

text \<open>
  The Go code computes on \<open>float64\<close>. The model keeps the three special values of
  IEEE 754 apart from the finite ones, and follows the standard (and the Go \<open>math\<close>
  package) wherever a special value is an operand or a result. Finite values are
  idealised as real numbers: no rounding, no overflow, one zero.
\<close>

datatype float64 = NaN | NInf | PInf | Fin real

fun fneg :: "float64 \<Rightarrow> float64" where
  "fneg NaN = NaN"
| "fneg NInf = PInf"
| "fneg PInf = NInf"
| "fneg (Fin a) = Fin (- a)"

fun fadd :: "float64 \<Rightarrow> float64 \<Rightarrow> float64" where
  "fadd NaN _ = NaN"
| "fadd _ NaN = NaN"
| "fadd PInf NInf = NaN"
| "fadd NInf PInf = NaN"
| "fadd PInf _ = PInf"
| "fadd _ PInf = PInf"
| "fadd NInf _ = NInf"
| "fadd _ NInf = NInf"
| "fadd (Fin a) (Fin b) = Fin (a + b)"

definition fsub :: "float64 \<Rightarrow> float64 \<Rightarrow> float64" where
  "fsub x y = fadd x (fneg y)"

text \<open>The sign of a value that is not NaN: \<open>-1\<close>, \<open>0\<close> or \<open>1\<close>.\<close>

fun fsign :: "float64 \<Rightarrow> int" where
  "fsign NaN = 0"
| "fsign NInf = - 1"
| "fsign PInf = 1"
| "fsign (Fin a) = (if a < 0 then - 1 else if a = 0 then 0 else 1)"

fun fmul :: "float64 \<Rightarrow> float64 \<Rightarrow> float64" where
  "fmul NaN _ = NaN"
| "fmul _ NaN = NaN"
| "fmul (Fin a) (Fin b) = Fin (a * b)"
| "fmul x y =
     (if fsign x * fsign y = 0 then NaN
      else if fsign x * fsign y < 0 then NInf else PInf)"

text \<open>Division; the only zero is the positive one, so \<open>1 / 0 = +Inf\<close>.\<close>

fun fdiv :: "float64 \<Rightarrow> float64 \<Rightarrow> float64" where
  "fdiv NaN _ = NaN"
| "fdiv _ NaN = NaN"
| "fdiv (Fin a) (Fin b) =
     (if b = 0 then (if a = 0 then NaN else if a < 0 then NInf else PInf)
      else Fin (a / b))"
| "fdiv (Fin a) _ = Fin 0"
| "fdiv x (Fin b) = (if fsign x * (if b < 0 then - 1 else 1) < 0 then NInf else PInf)"
| "fdiv _ _ = NaN"

text \<open>The comparisons \<open><\<close> and \<open><=\<close>: false as soon as an operand is NaN.\<close>

fun flt :: "float64 \<Rightarrow> float64 \<Rightarrow> bool" where
  "flt NaN _ = False"
| "flt _ NaN = False"
| "flt _ NInf = False"
| "flt NInf _ = True"
| "flt PInf _ = False"
| "flt _ PInf = True"
| "flt (Fin a) (Fin b) = (a < b)"

fun fle :: "float64 \<Rightarrow> float64 \<Rightarrow> bool" where
  "fle NaN _ = False"
| "fle _ NaN = False"
| "fle NInf _ = True"
| "fle _ NInf = False"
| "fle _ PInf = True"
| "fle PInf _ = False"
| "fle (Fin a) (Fin b) = (a \<le> b)"

text \<open>\<open>math.Min\<close>: negative infinity wins over NaN, NaN over the rest.\<close>

fun fmin :: "float64 \<Rightarrow> float64 \<Rightarrow> float64" where
  "fmin NInf _ = NInf"
| "fmin _ NInf = NInf"
| "fmin NaN _ = NaN"
| "fmin _ NaN = NaN"
| "fmin PInf y = y"
| "fmin x PInf = x"
| "fmin (Fin a) (Fin b) = Fin (min a b)"

text \<open>\<open>math.Log2\<close> and \<open>math.Pow(2, y)\<close>.\<close>

fun log2 :: "float64 \<Rightarrow> float64" where
  "log2 NaN = NaN"
| "log2 NInf = NaN"
| "log2 PInf = PInf"
| "log2 (Fin a) = (if a < 0 then NaN else if a = 0 then NInf else Fin (log 2 a))"

fun pow2 :: "float64 \<Rightarrow> float64" where
  "pow2 NaN = NaN"
| "pow2 NInf = Fin 0"
| "pow2 PInf = PInf"
| "pow2 (Fin a) = Fin (2 powr a)"

definition fromInt :: "int \<Rightarrow> float64" where
  "fromInt i = Fin (of_int i)"

section \<open>Log-space arithmetic\<close>

definition maxLogDiff :: float64 where
  "maxLogDiff = log2 (Fin (1 / 10 ^ 30))"

definition addLogs :: "float64 \<Rightarrow> float64 \<Rightarrow> float64" where
  "addLogs x y =
     (if flt x (fadd y maxLogDiff) then y
      else if flt y (fadd x maxLogDiff) then x
      else let base = fmin x y
           in fadd base (log2 (fadd (pow2 (fsub x base)) (pow2 (fsub y base)))))"

fun sumLogs :: "float64 list \<Rightarrow> float64" where
  "sumLogs [] = NInf"
| "sumLogs (l # logs) = foldl addLogs l logs"

section \<open>Strings, slices and regular expressions of the Go library\<close>

text \<open>
  A Go string is a sequence of bytes, here a \<open>char list\<close>. An index expression that
  is out of range panics; a panic is the value \<open>None\<close>.
\<close>

definition index :: "'a list \<Rightarrow> nat \<Rightarrow> 'a option" where
  "index xs i = (if i < length xs then Some (xs ! i) else None)"


fun stringInSlice :: "string \<Rightarrow> string list \<Rightarrow> bool" where
  "stringInSlice a [] = False"
| "stringInSlice a (b # slice) = (if a = b then True else stringInSlice a slice)"

text \<open>\<open>strings.Join(elems, sep)\<close>.\<close>

fun joinStr :: "string \<Rightarrow> string list \<Rightarrow> string" where
  "joinStr sep [] = []"
| "joinStr sep [a] = a"
| "joinStr sep (a # b # rest) = a @ sep @ joinStr sep (b # rest)"

text \<open>\<open>strings.Split(s, sep)\<close> for a separator of one byte: never the empty list.\<close>

fun split :: "char \<Rightarrow> string \<Rightarrow> string list" where
  "split sep [] = [[]]"
| "split sep (c # cs) =
     (if c = sep then [] # split sep cs
      else (case split sep cs of [] \<Rightarrow> [[c]] | s # ss \<Rightarrow> (c # s) # ss))"

text \<open>\<open>strings.Replace(s, old, new, 1)\<close> for \<open>old\<close> and \<open>new\<close> of one byte each.\<close>

fun replaceFirst :: "char \<Rightarrow> char \<Rightarrow> string \<Rightarrow> string" where
  "replaceFirst old new [] = []"
| "replaceFirst old new (c # cs) =
     (if c = old then new # cs else c # replaceFirst old new cs)"



text \<open>\<open>strconv.Itoa\<close>.\<close>

function digits :: "nat \<Rightarrow> string" where
  "digits n =
     (if n < 10 then [''0123456789'' ! n]
      else digits (n div 10) @ [''0123456789'' ! (n mod 10)])"
  by pat_completeness auto
termination
  by (relation "measure id") auto

definition itoa :: "int \<Rightarrow> string" where
  "itoa i = (if i < 0 then CHR ''-'' # digits (nat (- i)) else digits (nat i))"

text \<open>Ranges of bytes, and the value of a string of decimal digits.\<close>

definition byteIn :: "char \<Rightarrow> char \<Rightarrow> char \<Rightarrow> bool" where
  "byteIn lo hi c = ((of_char lo :: nat) \<le> of_char c \<and> (of_char c :: nat) \<le> of_char hi)"

definition isDigit :: "char \<Rightarrow> bool" where
  "isDigit c = byteIn CHR ''0'' CHR ''9'' c"



text \<open>
  The functions of the Go library that work on Unicode text or parse numbers are
  parameters of the model: \<open>strings.ToLower\<close>, \<open>strings.Title\<close>, and whether
  \<open>strconv.ParseFloat(s, 64)\<close> returns no error.
\<close>

record stdlib =
  ToLower :: "string \<Rightarrow> string"
  Title :: "string \<Rightarrow> string"
  ParseFloatOk :: "string \<Rightarrow> bool"

text \<open>
  Regular expressions, matched through derivatives. The classes of the patterns of
  this repository are sets of ASCII bytes or complements of such sets, so matching
  bytes agrees with matching code points.
\<close>

datatype rx = Null | Eps | Sym "char \<Rightarrow> bool" | Alt rx rx | Seq rx rx | Star rx

fun nullable :: "rx \<Rightarrow> bool" where
  "nullable Null = False"
| "nullable Eps = True"
| "nullable (Sym p) = False"
| "nullable (Alt r s) = (nullable r \<or> nullable s)"
| "nullable (Seq r s) = (nullable r \<and> nullable s)"
| "nullable (Star r) = True"

fun deriv :: "char \<Rightarrow> rx \<Rightarrow> rx" where
  "deriv c Null = Null"
| "deriv c Eps = Null"
| "deriv c (Sym p) = (if p c then Eps else Null)"
| "deriv c (Alt r s) = Alt (deriv c r) (deriv c s)"
| "deriv c (Seq r s) =
     (if nullable r then Alt (Seq (deriv c r) s) (deriv c s) else Seq (deriv c r) s)"
| "deriv c (Star r) = Seq (deriv c r) (Star r)"

fun fullMatch :: "rx \<Rightarrow> string \<Rightarrow> bool" where
  "fullMatch r [] = nullable r"
| "fullMatch r (c # cs) = fullMatch (deriv c r) cs"

text \<open>A pattern that ends with \<open>$\<close> and does not start with \<open>^\<close> matches a suffix.\<close>

definition suffixMatch :: "rx \<Rightarrow> string \<Rightarrow> bool" where
  "suffixMatch r s = fullMatch (Seq (Star (Sym (\<lambda>c. True))) r) s"


definition Plus :: "rx \<Rightarrow> rx" where
  "Plus r = Seq r (Star r)"


definition isUpper :: "char \<Rightarrow> bool" where
  "isUpper c = byteIn CHR ''A'' CHR ''Z'' c"

definition isWordChar :: "char \<Rightarrow> bool" where
  "isWordChar c =
     (isDigit c \<or> isUpper c \<or> byteIn CHR ''a'' CHR ''z'' c \<or> c = CHR ''_'')"

section \<open>Tokens and entities\<close>

text \<open>
  Modelled from the spec: the declarations of \<open>Token\<close> and \<open>Entity\<close> are not in the
  sources. A token is a text span plus a POS tag and an NER label; an entity is a
  resolved label plus the joined token text. These are the fields the code reads and
  writes.
\<close>

record Entity =
  Label :: string
  Text :: string

record Token =
  Tag :: string
  Text :: string
  Label :: string

section \<open>The BIO chunker\<close>

definition parseEntities :: "string list \<Rightarrow> string option" where
  "parseEntities ents =
     (if stringInSlice ''B-PERSON'' ents \<and> length ents = 2 then Some ''PERSON''
      else do {
        first \<leftarrow> index ents 0;
        index (split CHR ''-'' first) 1
      })"

definition coalesce :: "Token list \<Rightarrow> Entity option" where
  "coalesce parts =
     (let labels = map Token.Label parts;
          tokens = map Token.Text parts
      in do {
        l \<leftarrow> parseEntities labels;
        Some \<lparr>Entity.Label = l, Entity.Text = joinStr '' '' tokens\<rparr>
      })"

text \<open>
  The state of the loop of \<open>chunk\<close>: the entities emitted so far, the expected
  continuation label \<open>end\<close>, the tokens of the open span and their number.
\<close>

record chunkState =
  entities :: "Entity list"
  endLabel :: string
  parts :: "Token list"
  idx :: nat

definition chunkInit :: chunkState where
  "chunkInit = \<lparr>entities = [], endLabel = '''', parts = [], idx = 0\<rparr>"

text \<open>
  The condition of the first branch of the loop body: the token opens or continues an
  entity. \<open>parts[idx-1]\<close> is read only when \<open>idx > 0\<close>.
\<close>

definition continues :: "chunkState \<Rightarrow> Token \<Rightarrow> bool option" where
  "continues s tok =
     (let label = Token.Label tok
      in if label \<noteq> ''O'' \<and> label \<noteq> endLabel s then Some True
         else if idx s > 0 then do {
           prev \<leftarrow> index (parts s) (idx s - 1);
           Some (Tag tok = Tag prev \<or> (Tag tok = ''CD'' \<and> Token.Label prev \<noteq> ''O''))
         }
         else Some False)"

text \<open>The condition of the second branch: the token ends the open entity.\<close>

definition closes :: "chunkState \<Rightarrow> Token \<Rightarrow> bool" where
  "closes s tok =
     ((Token.Label tok = ''O'' \<and> endLabel s \<noteq> '''') \<or> Token.Label tok = endLabel s)"

definition chunkStep :: "chunkState \<Rightarrow> Token \<Rightarrow> chunkState option" where
  "chunkStep s tok = do {
     c \<leftarrow> continues s tok;
     if c then
       Some (s\<lparr>endLabel := replaceFirst CHR ''B'' CHR ''I'' (Token.Label tok),
               parts := parts s @ [tok],
               idx := idx s + 1\<rparr>)
     else if closes s tok then do {
       e \<leftarrow> coalesce (if Token.Label tok \<noteq> ''O'' then parts s @ [tok] else parts s);
       Some \<lparr>entities = entities s @ [e], endLabel = '''', parts = [], idx = 0\<rparr>
     }
     else Some s
   }"

fun chunkLoop :: "chunkState \<Rightarrow> Token list \<Rightarrow> chunkState option" where
  "chunkLoop s [] = Some s"
| "chunkLoop s (tok # tokens) = do { s' \<leftarrow> chunkStep s tok; chunkLoop s' tokens }"

definition chunk :: "Token list \<Rightarrow> Entity list option" where
  "chunk tokens = map_option entities (chunkLoop chunkInit tokens)"

text \<open>
  The category of a closed span in the words of the specification: PERSON when the
  span has exactly two labels and the first is the PERSON-beginning label; otherwise
  the part of the first label after its hyphen. Used to compare with \<open>parseEntities\<close>.
\<close>

definition specCategory :: "string list \<Rightarrow> string" where
  "specCategory ents =
     (if length ents = 2 \<and> hd ents = ''B-PERSON'' then ''PERSON''
      else drop 1 (dropWhile (\<lambda>c. c \<noteq> CHR ''-'') (hd ents)))"

text \<open>
  No token of \<open>us\<close>, read from state \<open>s\<close> on, takes the closing branch (and none
  panics): whatever is open stays open to the end of the sequence.
\<close>

fun staysOpen :: "chunkState \<Rightarrow> Token list \<Rightarrow> bool" where
  "staysOpen s [] = True"
| "staysOpen s (tok # us) =
     (case continues s tok of
        None \<Rightarrow> False
      | Some c \<Rightarrow>
          (c \<or> \<not> closes s tok) \<and>
          (case chunkStep s tok of None \<Rightarrow> False | Some s' \<Rightarrow> staysOpen s' us))"

section \<open>Probability distributions over labels\<close>

record encodedValue =
  key :: nat
  val :: int

record probEnc =
  prob :: float64
  vec :: "encodedValue list"

text \<open>
  The Go map from labels to \<open>*probEnc\<close> is an association list with one pair per
  label, in the order in which the labels were first stored; a range over the map visits
  it in that order.
\<close>

record mappedProbDist =
  dict :: "(string \<times> probEnc) list"
  logFlag :: bool

definition mappedProbDist_prob :: "mappedProbDist \<Rightarrow> string \<Rightarrow> float64" where
  "mappedProbDist_prob m label =
     (case map_of (dict m) label of Some p \<Rightarrow> pow2 (prob p) | None \<Rightarrow> Fin 0)"

definition newMappedProbDist :: "(string \<times> probEnc) list \<Rightarrow> bool \<Rightarrow> mappedProbDist" where
  "newMappedProbDist d normalise =
     (if normalise then
        (let values = map (\<lambda>(l, v). prob v) d;
             sum = sumLogs values
         in if fle sum NInf then
              (let p = log2 (fdiv (Fin 1) (fromInt (int (length d))))
               in \<lparr>dict = map (\<lambda>(l, pe). (l, pe\<lparr>prob := p\<rparr>)) d, logFlag = True\<rparr>)
            else
              \<lparr>dict = map (\<lambda>(l, pe). (l, pe\<lparr>prob := fsub (prob pe) sum\<rparr>)) d,
               logFlag = True\<rparr>)
      else \<lparr>dict = d, logFlag = True\<rparr>)"

section \<open>The binary maximum-entropy classifier\<close>

record feature =
  label :: string
  features :: "string list"

definition featureOrder :: "string list" where
  "featureOrder =
     [''bias'', ''en-wordlist'', ''nextpos'', ''nextword'', ''pos'', ''pos+prevtag'',
      ''prefix3'', ''prevpos'', ''prevtag'', ''prevword'', ''shape'', ''shape+prevtag'',
      ''suffix3'', ''word'', ''word+nextpos'', ''word.lower'', ''wordlen'']"

text \<open>
  The mapping from joint keys to indices is an association list in insertion order,
  one pair per key; a \<open>[17]string\<close> is a list of 17 strings, read slot by slot along
  \<open>featureOrder\<close>. The scratch buffer \<open>buf\<close> holds no state between calls.
\<close>

record binaryMaxentClassifier =
  cardinality :: int
  labels :: "string list"
  mapping :: "(string \<times> nat) list"
  weights :: "float64 list"

definition firstField :: "string \<Rightarrow> string" where
  "firstField s = (case split CHR ''-'' s of [] \<Rightarrow> [] | f # _ \<Rightarrow> f)"

definition newMaxentClassifier ::
  "float64 list \<Rightarrow> (string \<times> nat) list \<Rightarrow> string list \<Rightarrow> binaryMaxentClassifier" where
  "newMaxentClassifier ws m ls =
     \<lparr>cardinality = int (length (remdups (map (\<lambda>(l, i). firstField l) m))) + 1,
      labels = ls, mapping = m, weights = ws\<rparr>"

definition byteJoin :: "string \<Rightarrow> string \<Rightarrow> string \<Rightarrow> char \<Rightarrow> string" where
  "byteJoin a b c jc = a @ [jc] @ b @ [jc] @ c"

fun encodeLoop :: "(string \<times> nat) list \<Rightarrow> string \<Rightarrow> (string \<times> string) list \<Rightarrow> encodedValue list" where
  "encodeLoop m lab [] = []"
| "encodeLoop m lab ((k, v) # rest) =
     (case map_of m (byteJoin k v lab CHR ''-'') of
        Some ret \<Rightarrow> \<lparr>key = ret, val = 1\<rparr> # encodeLoop m lab rest
      | None \<Rightarrow> encodeLoop m lab rest)"

definition encode :: "binaryMaxentClassifier \<Rightarrow> string list \<Rightarrow> string \<Rightarrow> encodedValue list" where
  "encode m feats lab = encodeLoop (mapping m) lab (zip featureOrder feats)"

definition encodeGIS :: "binaryMaxentClassifier \<Rightarrow> string list \<Rightarrow> string \<Rightarrow> encodedValue list" where
  "encodeGIS m feats lab =
     (let encoding = encode m feats lab;
          len = length (mapping m);
          tot = foldl (\<lambda>t v. t + val v) 0 encoding
      in encoding @ [\<lparr>key = len, val = cardinality m - tot\<rparr>])"

text \<open>
  The function \<open>encode(corpus)\<close> that builds the vocabulary. Its \<open>count\<close> map is
  written and never read.
\<close>

fun registerKeys :: "(string \<times> nat) list \<Rightarrow> string \<Rightarrow> (string \<times> string) list \<Rightarrow> (string \<times> nat) list" where
  "registerKeys m lab [] = m"
| "registerKeys m lab ((fname, fval) # rest) =
     (let entry = joinStr ''-'' [fname, fval, lab]
      in registerKeys (if map_of m entry = None then m @ [(entry, length m)] else m) lab rest)"

fun encodeCorpusLoop ::
  "(string \<times> nat) list \<Rightarrow> string list \<Rightarrow> feature list \<Rightarrow> (string \<times> nat) list \<times> string list" where
  "encodeCorpusLoop m ls [] = (m, ls)"
| "encodeCorpusLoop m ls (entry # corpus) =
     encodeCorpusLoop
       (registerKeys m (label entry) (zip featureOrder (features entry)))
       (if stringInSlice (label entry) ls then ls else ls @ [label entry])
       corpus"

definition encodeCorpus :: "feature list \<Rightarrow> binaryMaxentClassifier" where
  "encodeCorpus corpus =
     (case encodeCorpusLoop [] [] corpus of (m, ls) \<Rightarrow> newMaxentClassifier [] m ls)"

text \<open>Reading and writing a dense vector out of range panics.\<close>

definition vecAdd :: "float64 list \<Rightarrow> nat \<Rightarrow> float64 \<Rightarrow> float64 list option" where
  "vecAdd v i x = (if i < length v then Some (v[i := fadd (v ! i) x]) else None)"

fun addCounts :: "float64 list \<Rightarrow> encodedValue list \<Rightarrow> float64 list option" where
  "addCounts count [] = Some count"
| "addCounts count (encoded # rest) = do {
     count' \<leftarrow> vecAdd count (key encoded) (fromInt (val encoded));
     addCounts count' rest
   }"

fun empiricalLoop ::
  "float64 list \<Rightarrow> binaryMaxentClassifier \<Rightarrow> feature list \<Rightarrow> float64 list option" where
  "empiricalLoop count encoding [] = Some count"
| "empiricalLoop count encoding (entry # corpus) = do {
     count' \<leftarrow> addCounts count (encodeGIS encoding (features entry) (label entry));
     empiricalLoop count' encoding corpus
   }"

definition empiricalCount :: "feature list \<Rightarrow> binaryMaxentClassifier \<Rightarrow> float64 list option" where
  "empiricalCount corpus encoding =
     empiricalLoop (replicate (length (mapping encoding) + 1) (Fin 0)) encoding corpus"

text \<open>Storing a value under a key of a map: the pair is replaced or appended.\<close>

fun put :: "'k \<Rightarrow> 'v \<Rightarrow> ('k \<times> 'v) list \<Rightarrow> ('k \<times> 'v) list" where
  "put k v [] = [(k, v)]"
| "put k v ((k', v') # m) = (if k = k' then (k, v) # m else (k', v') # put k v m)"

text \<open>\<open>probClassify\<close>: the GIS-encoded score of every label, normalised.\<close>

fun weightedSum :: "float64 list \<Rightarrow> float64 \<Rightarrow> encodedValue list \<Rightarrow> float64 option" where
  "weightedSum ws tot [] = Some tot"
| "weightedSum ws tot (entry # rest) = do {
     w \<leftarrow> index ws (key entry);
     weightedSum ws (fadd tot (fmul w (fromInt (val entry)))) rest
   }"

fun scoreLabels ::
  "binaryMaxentClassifier \<Rightarrow> string list \<Rightarrow> (string \<times> probEnc) list \<Rightarrow> string list \<Rightarrow>
   (string \<times> probEnc) list option" where
  "scoreLabels m feats scores [] = Some scores"
| "scoreLabels m feats scores (l # ls) =
     (let v = encodeGIS m feats l
      in do {
        tot \<leftarrow> weightedSum (weights m) (Fin 0) v;
        scoreLabels m feats (put l \<lparr>prob = tot, vec = v\<rparr> scores) ls
      })"

definition probClassify :: "binaryMaxentClassifier \<Rightarrow> string list \<Rightarrow> mappedProbDist option" where
  "probClassify m feats = do {
     scores \<leftarrow> scoreLabels m feats [] (labels m);
     Some (newMappedProbDist scores True)
   }"

section \<open>Training by generalised iterative scaling\<close>

fun addScaled :: "float64 list \<Rightarrow> float64 \<Rightarrow> encodedValue list \<Rightarrow> float64 list option" where
  "addScaled count p [] = Some count"
| "addScaled count p (enc # rest) = do {
     count' \<leftarrow> vecAdd count (key enc) (fmul p (fromInt (val enc)));
     addScaled count' p rest
   }"

fun addExpected :: "float64 list \<Rightarrow> (string \<times> probEnc) list \<Rightarrow> float64 list option" where
  "addExpected count [] = Some count"
| "addExpected count ((l, pe) # rest) = do {
     count' \<leftarrow> addScaled count (pow2 (prob pe)) (vec pe);
     addExpected count' rest
   }"

fun estLoop ::
  "float64 list \<Rightarrow> binaryMaxentClassifier \<Rightarrow> feature list \<Rightarrow> float64 list option" where
  "estLoop count classifier [] = Some count"
| "estLoop count classifier (entry # corpus) = do {
     pdist \<leftarrow> probClassify classifier (features entry);
     count' \<leftarrow> addExpected count (dict pdist);
     estLoop count' classifier corpus
   }"

definition estCount ::
  "binaryMaxentClassifier \<Rightarrow> feature list \<Rightarrow> binaryMaxentClassifier \<Rightarrow> float64 list option" where
  "estCount classifier corpus encoder =
     estLoop (replicate (length (mapping encoder) + 1) (Fin 0)) classifier corpus"

definition unattestedOf :: "float64 list \<Rightarrow> nat list" where
  "unattestedOf empfreq = filter (\<lambda>i. empfreq ! i = Fin 0) [0..<length empfreq]"

definition initialWeights :: "nat \<Rightarrow> nat list \<Rightarrow> float64 list" where
  "initialWeights rows unattested =
     foldl (\<lambda>w idx. w[idx := NInf]) (replicate rows (Fin 0)) unattested"

fun bumpUnattested :: "float64 list \<Rightarrow> nat list \<Rightarrow> float64 list option" where
  "bumpUnattested est [] = Some est"
| "bumpUnattested est (i # rest) = do {
     est' \<leftarrow> vecAdd est i (Fin 1);
     bumpUnattested est' rest
   }"

definition subVec :: "float64 list \<Rightarrow> float64 list \<Rightarrow> float64 list option" where
  "subVec a b = (if length a = length b then Some (map2 fsub a b) else None)"

definition scaleVec :: "float64 \<Rightarrow> float64 list \<Rightarrow> float64 list" where
  "scaleVec alpha a = map (fmul alpha) a"

definition addToWeights :: "float64 list \<Rightarrow> float64 list \<Rightarrow> float64 list option" where
  "addToWeights ws est =
     (if length ws \<le> length est then Some (map2 fadd ws est) else None)"

text \<open>
  One round of the loop of \<open>extracterFromData\<close>. The classifier and the encoding are
  one object in the Go code, so the round takes the classifier with its current
  weights and returns it with the new ones. \<open>empfreq\<close> holds the base-2 logarithms of
  the empirical counts.
\<close>

definition gisRound ::
  "binaryMaxentClassifier \<Rightarrow> feature list \<Rightarrow> float64 list \<Rightarrow> float64 \<Rightarrow> nat list \<Rightarrow>
   binaryMaxentClassifier option" where
  "gisRound classifier corpus empfreq cInv unattested = do {
     est \<leftarrow> estCount classifier corpus classifier;
     est \<leftarrow> bumpUnattested est unattested;
     est \<leftarrow> subVec empfreq (map log2 est);
     ws \<leftarrow> addToWeights (weights classifier) (scaleVec cInv est);
     Some (classifier\<lparr>weights := ws\<rparr>)
   }"

fun gisRounds ::
  "nat \<Rightarrow> binaryMaxentClassifier \<Rightarrow> feature list \<Rightarrow> float64 list \<Rightarrow> float64 \<Rightarrow> nat list \<Rightarrow>
   binaryMaxentClassifier option" where
  "gisRounds 0 classifier corpus empfreq cInv unattested = Some classifier"
| "gisRounds (Suc n) classifier corpus empfreq cInv unattested = do {
     classifier' \<leftarrow> gisRound classifier corpus empfreq cInv unattested;
     gisRounds n classifier' corpus empfreq cInv unattested
   }"

text \<open>
  \<open>extracterFromData\<close> with the number of rounds as a parameter: \<open>gisTrain k\<close> is
  the classifier as it stands after the first \<open>k\<close> rounds, and before the first
  round for \<open>k = 0\<close>.
\<close>

definition gisTrain :: "nat \<Rightarrow> feature list \<Rightarrow> binaryMaxentClassifier option" where
  "gisTrain rounds corpus =
     (let encoding = encodeCorpus corpus;
          cInv = fdiv (Fin 1) (fromInt (cardinality encoding))
      in do {
        empfreq \<leftarrow> empiricalCount corpus encoding;
        let rows = length empfreq;
        let unattested = unattestedOf empfreq;
        let ws = initialWeights rows unattested;
        gisRounds rounds (encoding\<lparr>weights := ws\<rparr>) corpus (map log2 empfreq) cInv unattested
      })"

definition extracterFromData :: "feature list \<Rightarrow> binaryMaxentClassifier option" where
  "extracterFromData corpus = gisTrain 100 corpus"

section \<open>Feature extraction for the entity classifier\<close>

definition isNumeric :: "stdlib \<Rightarrow> string \<Rightarrow> bool" where
  "isNumeric L s = ParseFloatOk L s"

definition nSuffix :: "stdlib \<Rightarrow> string \<Rightarrow> nat \<Rightarrow> string" where
  "nSuffix L word len = ToLower L (drop (length word - min (length word) len) word)"

definition nPrefix :: "stdlib \<Rightarrow> string \<Rightarrow> nat \<Rightarrow> string" where
  "nPrefix L word len = ToLower L (take (min (length word) len) word)"

text \<open>
  Modelled from the spec: the word list \<open>enWordList\<close> is not in the sources; it is
  the English word list behind the lexicon-membership flag, a parameter here.
\<close>

definition isBasic :: "string list \<Rightarrow> string \<Rightarrow> string" where
  "isBasic enWordList word = (if stringInSlice word enWordList then ''True'' else ''False'')"

text \<open>The patterns \<open>\W+$\<close> and \<open>\w+$\<close> of \<open>shape\<close>.\<close>

definition nonWordTail :: rx where
  "nonWordTail = Plus (Sym (\<lambda>c. \<not> isWordChar c))"

definition wordTail :: rx where
  "wordTail = Plus (Sym isWordChar)"

definition shape :: "stdlib \<Rightarrow> string \<Rightarrow> string" where
  "shape L word =
     (if isNumeric L word then ''number''
      else if suffixMatch nonWordTail word then ''punct''
      else if suffixMatch wordTail word then
        (if ToLower L word = word then ''downcase''
         else if Title L word = word then ''upcase''
         else ''mixedcase'')
      else ''other'')"

definition NoneFeat :: string where
  "NoneFeat = ''None''"

text \<open>
  The function \<open>extract\<close>, here \<open>extract_feats\<close>, fills the 17 slots by index, in the order of the assignments of the
  source; every slot starts as the empty string.
\<close>

definition extract_feats ::
  "stdlib \<Rightarrow> string list \<Rightarrow> nat \<Rightarrow> Token list \<Rightarrow> string list \<Rightarrow> string list option" where
  "extract_feats L enWordList i ctx history = do {
     tok \<leftarrow> index ctx i;
     let word = Token.Text tok;
     let feats = replicate 17 [];
     let feats = feats[0 := ''True''];
     let feats = feats[13 := word];
     let feats = feats[4 := Tag tok];
     let feats = feats[2 := isBasic enWordList word];
     let feats = feats[15 := ToLower L word];
     let feats = feats[12 := nSuffix L word 3];
     let feats = feats[6 := nPrefix L word 3];
     let feats = feats[10 := shape L word];
     let feats = feats[16 := itoa (int (length word))];
     (feats, prevShape) \<leftarrow>
       (if i = 0 then
          Some (feats[8 := NoneFeat, 9 := NoneFeat, 7 := NoneFeat], NoneFeat)
        else if i = 1 then do {
          prev \<leftarrow> index ctx (i - 1);
          h \<leftarrow> index history (i - 1);
          Some (feats[9 := ToLower L (Token.Text prev), 7 := Tag prev, 8 := h], NoneFeat)
        }
        else do {
          prev \<leftarrow> index ctx (i - 1);
          h \<leftarrow> index history (i - 1);
          Some (feats[9 := ToLower L (Token.Text prev), 7 := Tag prev, 8 := h],
                shape L (Token.Text prev))
        });
     feats \<leftarrow>
       (if int i = int (length ctx) - 1 then Some (feats[3 := NoneFeat, 2 := NoneFeat])
        else do {
          next \<leftarrow> index ctx (i + 1);
          Some (feats[3 := ToLower L (Token.Text next), 2 := ToLower L (Tag next)])
        });
     let feats = feats[14 := joinStr ''+'' [feats ! 15, feats ! 2]];
     let feats = feats[5 := joinStr ''+'' [feats ! 4, feats ! 8]];
     let feats = feats[11 := joinStr ''+'' [prevShape, feats ! 8]];
     Some feats
   }"

text \<open>
  An instance of the library parameters for evaluating examples. On words of ASCII
  letters, digits and punctuation it is \<open>strings.ToLower\<close> and
  \<open>strings.Title\<close>; it takes a word for a number when it is a string of at most
  308 decimal digits, which \<open>strconv.ParseFloat\<close> parses without a range error.
  On longer strings, and on words with a sign, a point, an exponent, an underscore or
  a letter, it stands for the library only where that also returns an error.
\<close>

definition isLower :: "char \<Rightarrow> bool" where
  "isLower c = byteIn CHR ''a'' CHR ''z'' c"

definition asciiLower :: "string \<Rightarrow> string" where
  "asciiLower s = map (\<lambda>c. if isUpper c then char_of (of_char c + (32::nat)) else c) s"

fun asciiTitleFrom :: "bool \<Rightarrow> string \<Rightarrow> string" where
  "asciiTitleFrom prevSep [] = []"
| "asciiTitleFrom prevSep (c # cs) =
     (if prevSep \<and> isLower c then char_of (of_char c - (32::nat)) else c) #
       asciiTitleFrom (\<not> isWordChar c) cs"

definition asciiLib :: stdlib where
  "asciiLib =
     \<lparr>ToLower = asciiLower, Title = asciiTitleFrom True,
      ParseFloatOk = (\<lambda>s. s \<noteq> [] \<and> list_all isDigit s \<and> length s \<le> 308)\<rparr>"

section \<open>The averaged-perceptron tagger\<close>




















text \<open>The finite values and their numbers.\<close>

fun finVal :: "float64 \<Rightarrow> real" where
  "finVal (Fin a) = a"
| "finVal _ = 0"

fun isFin :: "float64 \<Rightarrow> bool" where
  "isFin (Fin a) = True"
| "isFin _ = False"













section \<open>Invariants of the vocabulary and of count vectors\<close>

text \<open>
  A mapping built by \<open>encode(corpus)\<close> gives its keys, which are distinct, the
  indices \<open>0, 1, 2, ...\<close> in order.
\<close>

definition indexedMap :: "(string \<times> nat) list \<Rightarrow> bool" where
  "indexedMap m = (map snd m = [0..<length m] \<and> distinct (map fst m))"

text \<open>The joint keys that a corpus entry registers and looks up under its own label.\<close>

definition entryKeys :: "feature \<Rightarrow> string list" where
  "entryKeys entry =
     map (\<lambda>(fname, fval). byteJoin fname fval (label entry) CHR ''-'')
       (zip featureOrder (features entry))"

text \<open>A vector of finite, non-negative numbers.\<close>

definition countVec :: "float64 list \<Rightarrow> bool" where
  "countVec v = list_all (\<lambda>x. isFin x \<and> 0 \<le> finVal x) v"




section \<open>Properties of the log-space arithmetic\<close>

lemma maxLogDiff_Fin: "maxLogDiff = Fin (log 2 (1 / 10 ^ 30))"
  by (simp add: maxLogDiff_def)

lemma pow2_sum_pos:
  fixes a b :: real
  shows "\<not> 2 powr a + 2 powr b < 0" and "2 powr a + 2 powr b \<noteq> 0"
  by (smt (verit) powr_gt_zero)+

lemma addLogs_Fin:
  "addLogs (Fin x) (Fin y) =
     (if x < y + log 2 (1 / 10 ^ 30) then Fin y
      else if y < x + log 2 (1 / 10 ^ 30) then Fin x
      else Fin (min x y + log 2 (2 powr (x - min x y) + 2 powr (y - min x y))))"
  unfolding addLogs_def maxLogDiff_Fin by (simp add: fsub_def Let_def pow2_sum_pos)

lemma log2_shift:
  "b + log 2 (2 powr (x - b) + 2 powr (y - b)) = log 2 (2 powr x + 2 powr y)"
proof -
  have "2 powr x + 2 powr y = 2 powr b * (2 powr (x - b) + 2 powr (y - b))"
    by (simp add: algebra_simps powr_add[symmetric])
  moreover have "2 powr (x - b) + 2 powr (y - b) > 0"
    by (smt (verit) powr_gt_zero)
  ultimately show ?thesis
    by (simp add: log_mult)
qed

lemma floor_above_minus_100: "- 100 < log 2 (1 / 10 ^ 30)"
proof -
  have "(10::real) ^ 30 < 2 ^ 100" by simp
  then have "log 2 (10 ^ 30) < log 2 (2 ^ 100)"
    by (subst log_less_cancel_iff) simp_all
  also have "log 2 (2 ^ 100) = (100::real)"
    by (subst log_nat_power) simp_all
  finally have "log 2 (10 ^ 30) < (100::real)" .
  moreover have "log 2 (1 / 10 ^ 30) = - log 2 (10 ^ 30 :: real)"
    by (subst log_divide) simp_all
  ultimately show ?thesis by linarith
qed

text \<open>
  Claim C4. For finite \<open>x\<close> and \<open>y\<close>, \<open>addLogs\<close> is commutative; it is
  \<open>log2(2^x + 2^y)\<close> when \<open>|x - y|\<close> is at most the floor \<open>|log2(1e-30)|\<close>; and it
  is the larger argument when the smaller one is more than the floor below it. Finite
  arithmetic being exact in the model, the second equation is exact where the
  floating-point code is within rounding.
\<close>

theorem addLogs_commutes_and_combines:
  "addLogs (Fin x) (Fin y) = addLogs (Fin y) (Fin x) \<and>
   (\<bar>x - y\<bar> \<le> \<bar>log 2 (1 / 10 ^ 30)\<bar> \<longrightarrow>
      addLogs (Fin x) (Fin y) = Fin (log 2 (2 powr x + 2 powr y))) \<and>
   (min x y < max x y - \<bar>log 2 (1 / 10 ^ 30)\<bar> \<longrightarrow>
      addLogs (Fin x) (Fin y) = Fin (max x y))"
proof -
  define d :: real where "d = log 2 (1 / 10 ^ 30)"
  have n: "d < 0" unfolding d_def by simp
  have eq: "\<And>x y. addLogs (Fin x) (Fin y) =
     (if x < y + d then Fin y else if y < x + d then Fin x
      else Fin (log 2 (2 powr x + 2 powr y)))"
    unfolding addLogs_Fin log2_shift d_def by (rule refl)
  have c: "addLogs (Fin x) (Fin y) = addLogs (Fin y) (Fin x)"
    unfolding eq using n by (auto simp: add.commute)
  have a: "\<bar>x - y\<bar> \<le> \<bar>d\<bar> \<longrightarrow> addLogs (Fin x) (Fin y) = Fin (log 2 (2 powr x + 2 powr y))"
    unfolding eq using n by auto
  have m: "min x y < max x y - \<bar>d\<bar> \<longrightarrow> addLogs (Fin x) (Fin y) = Fin (max x y)"
    unfolding eq using n by (auto simp: min_def max_def)
  show ?thesis using c a m unfolding d_def by blast
qed

theorem addLogs_commutes_and_combines_witness:
  "addLogs (Fin 0) (Fin 0) = Fin 1 \<and> addLogs (Fin 0) (Fin (- 100)) = Fin 0 \<and>
   addLogs (Fin (- 100)) (Fin 0) = addLogs (Fin 0) (Fin (- 100))"
proof -
  have near: "\<bar>(0::real) - 0\<bar> \<le> \<bar>log 2 (1 / 10 ^ 30)\<bar>" by simp
  have far: "min (0::real) (- 100) < max 0 (- 100) - \<bar>log 2 (1 / 10 ^ 30)\<bar>"
    using floor_above_minus_100 by simp
  have "addLogs (Fin 0) (Fin 0) = Fin (log 2 (2 powr 0 + 2 powr 0))"
    using addLogs_commutes_and_combines [of 0 0] near by blast
  moreover have "addLogs (Fin 0) (Fin (- 100)) = Fin (max 0 (- 100))"
    using addLogs_commutes_and_combines [of 0 "- 100"] far by blast
  moreover have "addLogs (Fin (- 100)) (Fin 0) = addLogs (Fin 0) (Fin (- 100))"
    using addLogs_commutes_and_combines [of "- 100" 0] by blast
  ultimately show ?thesis by simp
qed

section \<open>Properties of the chunker\<close>

lemma split_head_tail:
  "split sep s =
     takeWhile (\<lambda>c. c \<noteq> sep) s #
       (if sep \<in> set s then split sep (drop 1 (dropWhile (\<lambda>c. c \<noteq> sep) s)) else [])"
proof (induction s)
  case Nil
  show ?case by simp
next
  case (Cons c cs)
  show ?case
  proof (cases "c = sep")
    case True
    then show ?thesis by simp
  next
    case False
    then show ?thesis
      by (subst split.simps, subst Cons.IH) simp
  qed
qed

lemma split_second:
  "index (split sep s) (Suc 0) =
     (if sep \<in> set s
      then Some (takeWhile (\<lambda>c. c \<noteq> sep) (drop 1 (dropWhile (\<lambda>c. c \<noteq> sep) s)))
      else None)"
proof (cases "sep \<in> set s")
  case True
  define t where "t = drop 1 (dropWhile (\<lambda>c. c \<noteq> sep) s)"
  have "split sep s = takeWhile (\<lambda>c. c \<noteq> sep) s # split sep t"
    using True unfolding t_def by (subst split_head_tail) simp
  moreover obtain rest where "split sep t = takeWhile (\<lambda>c. c \<noteq> sep) t # rest"
    using split_head_tail [of sep t] by blast
  ultimately show ?thesis
    using True unfolding t_def by (simp add: index_def)
next
  case False
  then have "split sep s = [takeWhile (\<lambda>c. c \<noteq> sep) s]"
    by (subst split_head_tail) simp
  then show ?thesis using False by (simp add: index_def)
qed

lemma index_0: "index xs 0 = (case xs of [] \<Rightarrow> None | x # _ \<Rightarrow> Some x)"
  by (cases xs) (simp_all add: index_def)

lemma stringInSlice_set: "stringInSlice a slice = (a \<in> set slice)"
  by (induction slice) auto

lemma parseEntities_cases:
  "parseEntities ents =
     (if ''B-PERSON'' \<in> set ents \<and> length ents = 2 then Some ''PERSON''
      else if ents = [] \<or> CHR ''-'' \<notin> set (hd ents) then None
      else Some (takeWhile (\<lambda>c. c \<noteq> CHR ''-'')
                   (drop 1 (dropWhile (\<lambda>c. c \<noteq> CHR ''-'') (hd ents)))))"
  by (cases ents) (simp_all add: parseEntities_def stringInSlice_set index_0 split_second)

lemma coalesce_cases:
  "coalesce ps =
     map_option (\<lambda>l. \<lparr>Entity.Label = l, Entity.Text = joinStr '' '' (map Token.Text ps)\<rparr>)
       (parseEntities (map Token.Label ps))"
  by (cases "parseEntities (map Token.Label ps)") (simp_all add: coalesce_def)

text \<open>
  Claim C9, with the PERSON rule as the code has it. The text of the entity is the
  token texts joined with single spaces. Its label is PERSON when the span has exactly
  two tokens and the label \<open>B-PERSON\<close> occurs among their labels, at either
  position; otherwise, when the first label is a prefix, one hyphen and a category,
  it is that category, the suffix of the first label.
\<close>

theorem coalesce_text_and_category:
  "(\<forall>e. coalesce ps = Some e \<longrightarrow> Entity.Text e = joinStr '' '' (map Token.Text ps)) \<and>
   (''B-PERSON'' \<in> set (map Token.Label ps) \<and> length ps = 2 \<longrightarrow>
      coalesce ps =
        Some \<lparr>Entity.Label = ''PERSON'', Entity.Text = joinStr '' '' (map Token.Text ps)\<rparr>) \<and>
   (\<not> (''B-PERSON'' \<in> set (map Token.Label ps) \<and> length ps = 2) \<and> ps \<noteq> [] \<and>
    Token.Label (hd ps) = pre @ ''-'' @ cat \<and> CHR ''-'' \<notin> set pre \<and> CHR ''-'' \<notin> set cat \<longrightarrow>
      coalesce ps =
        Some \<lparr>Entity.Label = cat, Entity.Text = joinStr '' '' (map Token.Text ps)\<rparr>)"
proof (intro conjI impI allI)
  fix e assume "coalesce ps = Some e"
  then show "Entity.Text e = joinStr '' '' (map Token.Text ps)"
    by (auto simp: coalesce_cases)
next
  assume "''B-PERSON'' \<in> set (map Token.Label ps) \<and> length ps = 2"
  then have "parseEntities (map Token.Label ps) = Some ''PERSON''"
    by (subst parseEntities_cases) simp
  then show "coalesce ps =
      Some \<lparr>Entity.Label = ''PERSON'', Entity.Text = joinStr '' '' (map Token.Text ps)\<rparr>"
    by (simp add: coalesce_cases)
next
  assume a: "\<not> (''B-PERSON'' \<in> set (map Token.Label ps) \<and> length ps = 2) \<and> ps \<noteq> [] \<and>
    Token.Label (hd ps) = pre @ ''-'' @ cat \<and> CHR ''-'' \<notin> set pre \<and> CHR ''-'' \<notin> set cat"
  then have first: "hd (map Token.Label ps) = pre @ CHR ''-'' # cat"
    by (simp add: hd_map)
  have np: "\<forall>x \<in> set pre. x \<noteq> CHR ''-''" and nc: "\<forall>x \<in> set cat. x \<noteq> CHR ''-''"
    using a by auto
  have "dropWhile (\<lambda>c. c \<noteq> CHR ''-'') (pre @ CHR ''-'' # cat) = CHR ''-'' # cat"
    using np by (induction pre) simp_all
  moreover have "takeWhile (\<lambda>c. c \<noteq> CHR ''-'') cat = cat"
    using nc by (simp add: takeWhile_eq_all_conv)
  ultimately have "parseEntities (map Token.Label ps) = Some cat"
    using a first by (subst parseEntities_cases) auto
  then show "coalesce ps =
      Some \<lparr>Entity.Label = cat, Entity.Text = joinStr '' '' (map Token.Text ps)\<rparr>"
    by (simp add: coalesce_cases)
qed

theorem coalesce_text_and_category_witness:
  "coalesce [\<lparr>Tag = ''NNP'', Text = ''Pierre'', Label = ''B-PERSON''\<rparr>,
             \<lparr>Tag = ''NNP'', Text = ''Vinken'', Label = ''I-PERSON''\<rparr>] =
     Some \<lparr>Entity.Label = ''PERSON'', Entity.Text = ''Pierre Vinken''\<rparr> \<and>
   coalesce [\<lparr>Tag = ''NNP'', Text = ''New'', Label = ''B-GPE''\<rparr>,
             \<lparr>Tag = ''NNP'', Text = ''York'', Label = ''I-GPE''\<rparr>] =
     Some \<lparr>Entity.Label = ''GPE'', Entity.Text = ''New York''\<rparr>"
proof -
  let ?ps = "[\<lparr>Tag = ''NNP'', Text = ''Pierre'', Label = ''B-PERSON''\<rparr>,
              \<lparr>Tag = ''NNP'', Text = ''Vinken'', Label = ''I-PERSON''\<rparr>]"
  let ?qs = "[\<lparr>Tag = ''NNP'', Text = ''New'', Label = ''B-GPE''\<rparr>,
              \<lparr>Tag = ''NNP'', Text = ''York'', Label = ''I-GPE''\<rparr>]"
  have p: "''B-PERSON'' \<in> set (map Token.Label ?ps) \<and> length ?ps = 2"
    by simp
  have q: "\<not> (''B-PERSON'' \<in> set (map Token.Label ?qs) \<and> length ?qs = 2) \<and> ?qs \<noteq> [] \<and>
      Token.Label (hd ?qs) = ''B'' @ ''-'' @ ''GPE'' \<and> CHR ''-'' \<notin> set ''B'' \<and>
      CHR ''-'' \<notin> set ''GPE''"
    by simp
  show ?thesis
    using coalesce_text_and_category [of ?ps] p
      coalesce_text_and_category [where ps = ?qs and pre = "''B''" and cat = "''GPE''"] q
    by simp
qed

text \<open>
  The claim as stated fails on a two-token span whose second label is \<open>B-PERSON\<close>:
  the claim gives the category of the first label, the code gives PERSON. The
  chunker closes such a span.
\<close>

theorem coalesce_person_not_leading_counterexample:
  "coalesce [\<lparr>Tag = ''NNP'', Text = ''New'', Label = ''B-GPE''\<rparr>,
             \<lparr>Tag = ''NN'', Text = ''York'', Label = ''B-PERSON''\<rparr>] =
     Some \<lparr>Entity.Label = ''PERSON'', Entity.Text = ''New York''\<rparr> \<and>
   specCategory [''B-GPE'', ''B-PERSON''] = ''GPE'' \<and>
   chunk [\<lparr>Tag = ''NNP'', Text = ''New'', Label = ''B-GPE''\<rparr>,
          \<lparr>Tag = ''NN'', Text = ''York'', Label = ''B-PERSON''\<rparr>,
          \<lparr>Tag = '','', Text = '','', Label = ''O''\<rparr>] =
     Some [\<lparr>Entity.Label = ''PERSON'', Entity.Text = ''New York''\<rparr>]"
  by (simp add: chunk_def chunkInit_def chunkStep_def continues_def closes_def coalesce_def
      parseEntities_def index_def specCategory_def)

lemma chunkLoop_append:
  "chunkLoop s (ts @ us) = (case chunkLoop s ts of None \<Rightarrow> None | Some s' \<Rightarrow> chunkLoop s' us)"
proof (induction ts arbitrary: s)
  case Nil
  show ?case by simp
next
  case (Cons t ts)
  show ?case
    by (cases "chunkStep s t") (simp_all add: Cons.IH)
qed

lemma chunkStep_keeps_entities:
  assumes "continues s tok = Some c" and "c \<or> \<not> closes s tok" and "chunkStep s tok = Some s'"
  shows "entities s' = entities s"
  using assms by (auto simp: chunkStep_def split: if_splits)

lemma staysOpen_entities:
  "staysOpen s us \<Longrightarrow> \<exists>s'. chunkLoop s us = Some s' \<and> entities s' = entities s"
proof (induction us arbitrary: s)
  case Nil
  show ?case by simp
next
  case (Cons t us)
  from Cons.prems obtain c s1 where c: "continues s t = Some c" "c \<or> \<not> closes s t"
    and s1: "chunkStep s t = Some s1" and rest: "staysOpen s1 us"
    by (auto split: option.splits)
  from Cons.IH [OF rest] obtain s' where "chunkLoop s1 us = Some s'" "entities s' = entities s1"
    by blast
  moreover have "entities s1 = entities s"
    using chunkStep_keeps_entities [OF c s1] .
  ultimately show ?case
    using s1 by simp
qed

lemma chunkStep_emits_only_on_close:
  assumes "chunkStep s tok = Some s'" and "entities s' \<noteq> entities s"
  shows "Token.Label tok = ''O'' \<or> Token.Label tok = endLabel s"
  using assms
  by (cases "continues s tok") (auto simp: chunkStep_def closes_def split: if_splits)

text \<open>
  Claim C10. When the tokens after \<open>ts\<close> never take the closing branch, whatever
  entity is open at the end of the sequence is not emitted: the result is the list of
  entities emitted up to \<open>ts\<close>. A step adds an entity only at a token labelled
  \<open>O\<close> or labelled with the expected continuation label.
\<close>

theorem chunk_never_emits_open_span:
  "(chunkLoop chunkInit ts = Some s \<and> staysOpen s us \<longrightarrow>
      chunk (ts @ us) = Some (entities s) \<and> chunk ts = Some (entities s)) \<and>
   (chunkStep s0 tok = Some s1 \<and> entities s1 \<noteq> entities s0 \<longrightarrow>
      Token.Label tok = ''O'' \<or> Token.Label tok = endLabel s0)"
proof (intro conjI impI)
  assume a: "chunkLoop chunkInit ts = Some s \<and> staysOpen s us"
  then obtain s' where "chunkLoop s us = Some s'" "entities s' = entities s"
    using staysOpen_entities by blast
  then show "chunk (ts @ us) = Some (entities s)"
    using a by (simp add: chunk_def chunkLoop_append)
  show "chunk ts = Some (entities s)"
    using a by (simp add: chunk_def)
next
  assume "chunkStep s0 tok = Some s1 \<and> entities s1 \<noteq> entities s0"
  then show "Token.Label tok = ''O'' \<or> Token.Label tok = endLabel s0"
    using chunkStep_emits_only_on_close by blast
qed

theorem chunk_never_emits_open_span_witness:
  "chunk ([] @ [\<lparr>Tag = ''NNP'', Text = ''Pierre'', Label = ''B-PERSON''\<rparr>]) = Some [] \<and>
   (Token.Label \<lparr>Tag = '','', Text = '','', Label = ''O''\<rparr> = ''O'' \<or>
    Token.Label \<lparr>Tag = '','', Text = '','', Label = ''O''\<rparr> = ''I-PERSON'')"
proof -
  let ?t = "\<lparr>Tag = ''NNP'', Text = ''Pierre'', Label = ''B-PERSON''\<rparr>"
  let ?o = "\<lparr>Tag = '','', Text = '','', Label = ''O''\<rparr>"
  let ?s0 = "\<lparr>entities = [], endLabel = ''I-PERSON'', parts = [?t], idx = 1\<rparr>"
  let ?s1 = "\<lparr>entities = [\<lparr>Entity.Label = ''PERSON'', Entity.Text = ''Pierre''\<rparr>],
              endLabel = '''', parts = [], idx = 0\<rparr>"
  have h1: "chunkLoop chunkInit [] = Some chunkInit \<and> staysOpen chunkInit [?t]"
    by (simp add: chunkInit_def continues_def chunkStep_def)
  have h2: "chunkStep ?s0 ?o = Some ?s1 \<and> entities ?s1 \<noteq> entities ?s0"
    by (simp add: chunkStep_def continues_def closes_def coalesce_def parseEntities_def
        index_def)
  show ?thesis
    using chunk_never_emits_open_span [of "[]" chunkInit "[?t]" ?s0 ?o ?s1] h1 h2
    by (simp add: chunkInit_def)
qed

section \<open>Properties of the encoding\<close>

lemma encodeLoop_vals: "map val (encodeLoop m lab kvs) = replicate (length (encodeLoop m lab kvs)) 1"
  by (induction m lab kvs rule: encodeLoop.induct) (auto split: option.splits)

lemma encodeLoop_length:
  "length (encodeLoop m lab kvs) =
     length (filter (\<lambda>(k, v). map_of m (byteJoin k v lab CHR ''-'') \<noteq> None) kvs)"
  by (induction m lab kvs rule: encodeLoop.induct) (auto split: option.splits)

lemma foldl_val_sum: "foldl (\<lambda>t v. t + val v) a es = a + sum_list (map val es)"
  by (induction es arbitrary: a) simp_all

lemma sum_list_replicate_one: "sum_list (replicate n (1::int)) = int n"
  by (induction n) simp_all

lemma encode_total: "foldl (\<lambda>t v. t + val v) 0 (encode m feats lab) = int (length (encode m feats lab))"
  by (simp add: foldl_val_sum encode_def encodeLoop_vals sum_list_replicate_one)

lemma encodeGIS_unfold:
  "encodeGIS m feats lab =
     encode m feats lab @
       [\<lparr>key = length (mapping m), val = cardinality m - int (length (encode m feats lab))\<rparr>]"
  by (simp add: encodeGIS_def Let_def encode_total)

text \<open>
  Claim C5. The values of the entries of \<open>encodeGIS\<close> sum to the cardinality of the
  classifier: the plain encoding holds one entry of value 1 for every slot whose joint
  key is mapped, and the entry appended at index \<open>len(mapping)\<close> has value
  cardinality minus the number of those entries.
\<close>

theorem encodeGIS_sum_is_cardinality:
  "sum_list (map val (encodeGIS m feats lab)) = cardinality m \<and>
   map val (encode m feats lab) = replicate (length (encode m feats lab)) 1 \<and>
   length (encode m feats lab) =
     length (filter (\<lambda>(k, v). map_of (mapping m) (byteJoin k v lab CHR ''-'') \<noteq> None)
               (zip featureOrder feats)) \<and>
   encodeGIS m feats lab =
     encode m feats lab @
       [\<lparr>key = length (mapping m), val = cardinality m - int (length (encode m feats lab))\<rparr>]"
proof -
  have v: "map val (encode m feats lab) = replicate (length (encode m feats lab)) 1"
    unfolding encode_def by (rule encodeLoop_vals)
  have "sum_list (map val (encode m feats lab)) = int (length (encode m feats lab))"
    by (subst v) (rule sum_list_replicate_one)
  then have "sum_list (map val (encodeGIS m feats lab)) = cardinality m"
    by (simp add: encodeGIS_unfold)
  moreover have "length (encode m feats lab) =
     length (filter (\<lambda>(k, v). map_of (mapping m) (byteJoin k v lab CHR ''-'') \<noteq> None)
               (zip featureOrder feats))"
    unfolding encode_def by (rule encodeLoop_length)
  ultimately show ?thesis
    using v encodeGIS_unfold by blast
qed

section \<open>Properties of the normalisation\<close>

lemma addLogs_not_NInf: "addLogs x y \<noteq> NInf"
proof -
  have pos: "\<And>a. 0 < a \<Longrightarrow> log2 (Fin a) = Fin (log 2 a)" by simp
  show ?thesis
    unfolding addLogs_def maxLogDiff_Fin
    by (cases x; cases y) (simp_all add: fsub_def Let_def pow2_sum_pos)
qed

lemma foldl_addLogs_not_NInf: "logs \<noteq> [] \<Longrightarrow> foldl addLogs l logs \<noteq> NInf"
proof (induction logs arbitrary: l rule: rev_induct)
  case Nil
  then show ?case by simp
next
  case (snoc x xs)
  show ?case by (simp add: addLogs_not_NInf)
qed

lemma fle_NInf: "fle x NInf = (x = NInf)"
  by (cases x) simp_all

text \<open>
  The guard \<open>sum <= -Inf\<close> of \<open>newMappedProbDist\<close> holds only when there is no label
  at all, or one label whose score is negative infinity.
\<close>

lemma sumLogs_underflow_guard:
  "fle (sumLogs logs) NInf = (logs = [] \<or> logs = [NInf])"
proof (cases logs)
  case Nil
  then show ?thesis by simp
next
  case (Cons l rest)
  then show ?thesis
    using foldl_addLogs_not_NInf [of rest l] by (cases rest) (auto simp: fle_NInf)
qed

text \<open>
  Claim C6 at two labels whose scores are both negative infinity, so that the total
  mass is zero: the sum of the logs is NaN, the guard is false, and every label is
  given the log-probability NaN and the probability NaN.
\<close>

theorem newMappedProbDist_underflow_gives_NaN:
  "sumLogs [NInf, NInf] = NaN \<and>
   newMappedProbDist [(''A'', \<lparr>prob = NInf, vec = []\<rparr>), (''B'', \<lparr>prob = NInf, vec = []\<rparr>)] True =
     \<lparr>dict = [(''A'', \<lparr>prob = NaN, vec = []\<rparr>), (''B'', \<lparr>prob = NaN, vec = []\<rparr>)],
      logFlag = True\<rparr> \<and>
   mappedProbDist_prob
     (newMappedProbDist [(''A'', \<lparr>prob = NInf, vec = []\<rparr>), (''B'', \<lparr>prob = NInf, vec = []\<rparr>)] True)
     ''A'' = NaN"
proof -
  have s: "sumLogs [NInf, NInf] = NaN"
    by (simp add: addLogs_def maxLogDiff_Fin fsub_def)
  show ?thesis
    unfolding newMappedProbDist_def mappedProbDist_prob_def
    by (simp add: s fsub_def del: sumLogs.simps)
qed

section \<open>Properties of the feature extraction\<close>

lemma replicate_17: "replicate 17 x = [x, x, x, x, x, x, x, x, x, x, x, x, x, x, x, x, x]"
  by (simp add: numeral_eq_Suc)

text \<open>
  No assignment of \<open>extract\<close> writes slot 1, the slot that \<open>featureOrder\<close> names
  \<open>en-wordlist\<close>: it is the empty string in every result.
\<close>

lemma extract_feats_slot_1:
  "extract_feats L enWordList i ctx history = Some feats \<Longrightarrow> feats ! 1 = [] \<and> length feats = 17"
  by (auto simp: extract_feats_def replicate_17 Let_def split: if_splits Option.bind_splits)

text \<open>
  Claim C3 at the one-token sentence \<open>the\<close>, a word of the word list: the slot
  named \<open>en-wordlist\<close> holds the empty string, not \<open>True\<close>. The result of
  \<open>isBasic\<close> is stored in slot 2 and overwritten there by the next-tag feature.
\<close>

theorem extract_feats_wordlist_slot_empty:
  "extract_feats asciiLib [''the''] 0 [\<lparr>Tag = ''DT'', Text = ''the'', Label = ''O''\<rparr>] [] =
     Some [''True'', '''', ''None'', ''None'', ''DT'', ''DT+None'', ''the'', ''None'', ''None'',
           ''None'', ''downcase'', ''None+None'', ''the'', ''the'', ''the+None'', ''the'', ''3''] \<and>
   featureOrder ! 1 = ''en-wordlist'' \<and>
   isBasic [''the''] ''the'' = ''True''"
  by code_simp

section \<open>Properties of the tagger\<close>

lemma isFin_conv: "isFin x = (x = Fin (finVal x))"
  by (cases x) simp_all




























section \<open>Properties of the vocabulary\<close>

lemma joinStr_three: "joinStr ''-'' [a, b, c] = byteJoin a b c CHR ''-''"
  by (simp add: byteJoin_def)

lemma indexedMap_lookup:
  assumes "indexedMap m" and "map_of m k = Some v"
  shows "v < length m \<and> m ! v = (k, v)"
proof -
  from assms(2) have "(k, v) \<in> set m" by (rule map_of_SomeD)
  then obtain i where i: "i < length m" "m ! i = (k, v)"
    by (auto simp: in_set_conv_nth)
  then have "snd (m ! i) = v" by simp
  moreover have "snd (m ! i) = i"
    using assms(1) i(1) unfolding indexedMap_def by (metis nth_map nth_upt add_0 length_map)
  ultimately show ?thesis using i by simp
qed

lemma indexedMap_nth:
  assumes "indexedMap m" and "p < length m"
  shows "map_of m (fst (m ! p)) = Some p"
proof -
  have "snd (m ! p) = p"
    using assms unfolding indexedMap_def by (metis nth_map nth_upt add_0 length_map)
  then have "(fst (m ! p), p) \<in> set m"
    using assms(2) by (metis nth_mem prod.collapse)
  then show ?thesis
    using assms(1) unfolding indexedMap_def by simp
qed

lemma indexedMap_append:
  assumes "indexedMap m" and "map_of m k = None"
  shows "indexedMap (m @ [(k, length m)])"
proof -
  have "k \<notin> fst ` set m" using assms(2) by (simp add: map_of_eq_None_iff)
  then show ?thesis using assms(1) unfolding indexedMap_def by simp
qed

lemma registerKeys_invariant:
  "indexedMap m \<Longrightarrow>
     indexedMap (registerKeys m lab kvs) \<and>
     (\<exists>ext. registerKeys m lab kvs = m @ ext) \<and>
     fst ` set (registerKeys m lab kvs) =
       fst ` set m \<union> (\<lambda>(fname, fval). byteJoin fname fval lab CHR ''-'') ` set kvs"
proof (induction kvs arbitrary: m)
  case Nil
  then show ?case by simp
next
  case (Cons kv kvs)
  obtain fname fval where kv: "kv = (fname, fval)" by (cases kv)
  define entry where "entry = byteJoin fname fval lab CHR ''-''"
  define m' where "m' = (if map_of m entry = None then m @ [(entry, length m)] else m)"
  have step: "registerKeys m lab (kv # kvs) = registerKeys m' lab kvs"
    unfolding kv m'_def entry_def by (simp add: Let_def byteJoin_def)
  have inv: "indexedMap m'"
    unfolding m'_def using Cons.prems indexedMap_append by simp
  have ext: "\<exists>e. m' = m @ e" unfolding m'_def by auto
  have keys: "fst ` set m' = insert entry (fst ` set m)"
    unfolding m'_def by (auto simp: map_of_eq_None_iff)
  note ih = Cons.IH [OF inv]
  show ?case
    unfolding step using ih ext keys unfolding kv entry_def by auto
qed

lemma encodeCorpusLoop_invariant:
  "indexedMap m \<Longrightarrow> encodeCorpusLoop m ls corpus = (m', ls') \<Longrightarrow>
     indexedMap m' \<and> (\<exists>ext. m' = m @ ext) \<and>
     fst ` set m' = fst ` set m \<union> (\<Union>entry \<in> set corpus. set (entryKeys entry))"
proof (induction corpus arbitrary: m ls)
  case Nil
  then show ?case by simp
next
  case (Cons entry corpus)
  define m1 where "m1 = registerKeys m (label entry) (zip featureOrder (features entry))"
  note r = registerKeys_invariant [OF Cons.prems(1), of "label entry" "zip featureOrder (features entry)"]
  have inv: "indexedMap m1" unfolding m1_def using r by simp
  have rest: "encodeCorpusLoop m1
      (if stringInSlice (label entry) ls then ls else ls @ [label entry]) corpus = (m', ls')"
    using Cons.prems(2) unfolding m1_def by simp
  note ih = Cons.IH [OF inv rest]
  have keys1: "fst ` set m1 = fst ` set m \<union> set (entryKeys entry)"
    unfolding m1_def entryKeys_def using r by simp
  obtain e1 where e1: "m1 = m @ e1" unfolding m1_def using r by blast
  obtain e2 where e2: "m' = m1 @ e2" using ih by blast
  have "m' = m @ (e1 @ e2)" using e1 e2 by simp
  then have "\<exists>ext. m' = m @ ext" by blast
  then show ?case using ih keys1 by auto
qed

lemma indexedMap_empty: "indexedMap []"
  by (simp add: indexedMap_def)

lemma encodeCorpus_mapping:
  "indexedMap (mapping (encodeCorpus corpus)) \<and>
   fst ` set (mapping (encodeCorpus corpus)) = (\<Union>entry \<in> set corpus. set (entryKeys entry))"
proof -
  obtain m ls where l: "encodeCorpusLoop [] [] corpus = (m, ls)"
    by (cases "encodeCorpusLoop [] [] corpus")
  have "mapping (encodeCorpus corpus) = m"
    unfolding encodeCorpus_def l by (simp add: newMaxentClassifier_def)
  then show ?thesis
    using encodeCorpusLoop_invariant [OF indexedMap_empty l] by simp
qed

lemma encodeCorpus_cardinality:
  "cardinality (encodeCorpus corpus) =
     int (card (firstField ` fst ` set (mapping (encodeCorpus corpus)))) + 1"
proof -
  obtain m ls where l: "encodeCorpusLoop [] [] corpus = (m, ls)"
    by (cases "encodeCorpusLoop [] [] corpus")
  have e: "map (\<lambda>(l, i). firstField l) m = map firstField (map fst m)"
    by (induction m) auto
  have "length (remdups (map (\<lambda>(l, i). firstField l) m)) = card (firstField ` fst ` set m)"
    unfolding e by (simp only: length_remdups_card_conv set_map)
  then show ?thesis
    unfolding encodeCorpus_def l by (simp add: newMaxentClassifier_def)
qed

lemma firstField_takeWhile: "firstField s = takeWhile (\<lambda>c. c \<noteq> CHR ''-'') s"
  unfolding firstField_def by (subst split_head_tail) simp

lemma firstField_byteJoin: "firstField (byteJoin a b c CHR ''-'') = firstField a"
  unfolding firstField_takeWhile byteJoin_def
  by (induction a) auto

lemma featureOrder_prefixes_distinct: "distinct (map firstField featureOrder)"
  unfolding firstField_takeWhile featureOrder_def by simp

text \<open>
  The number of indicators that fire is at most the number of distinct first fields
  of the mapped keys, so the correction value is at least 1 for a classifier whose
  cardinality is that number plus one.
\<close>

lemma encode_length_bound:
  "length (encode m feats lab) \<le> card (firstField ` fst ` set (mapping m))"
proof -
  define kvs where "kvs = zip featureOrder feats"
  define found where "found = filter (\<lambda>(k, v). map_of (mapping m) (byteJoin k v lab CHR ''-'') \<noteq> None) kvs"
  have len: "length (encode m feats lab) = length found"
    unfolding encode_def found_def kvs_def by (rule encodeLoop_length)
  have "map fst kvs = take (length feats) featureOrder"
    unfolding kvs_def by (simp add: map_fst_zip_take min_def take_all)
  then have "distinct (map firstField (map fst kvs))"
    using featureOrder_prefixes_distinct by (simp add: distinct_take take_map[symmetric])
  then have "distinct (map (firstField \<circ> fst) kvs)" by simp
  then have d: "distinct (map (firstField \<circ> fst) found)"
    unfolding found_def by (rule distinct_map_filter)
  have sub: "set (map (firstField \<circ> fst) found) \<subseteq> firstField ` fst ` set (mapping m)"
  proof
    fix x assume "x \<in> set (map (firstField \<circ> fst) found)"
    then obtain k v where kv: "(k, v) \<in> set found" "x = firstField k" by auto
    then have "map_of (mapping m) (byteJoin k v lab CHR ''-'') \<noteq> None"
      unfolding found_def by simp
    then have "byteJoin k v lab CHR ''-'' \<in> fst ` set (mapping m)"
      by (simp add: map_of_eq_None_iff)
    then have "firstField (byteJoin k v lab CHR ''-'') \<in> firstField ` fst ` set (mapping m)"
      by (rule imageI)
    then show "x \<in> firstField ` fst ` set (mapping m)"
      using kv(2) by (simp add: firstField_byteJoin)
  qed
  have "length found = card (set (map (firstField \<circ> fst) found))"
    using d by (metis distinct_card length_map)
  also have "\<dots> \<le> card (firstField ` fst ` set (mapping m))"
    using sub by (intro card_mono) simp_all
  finally show ?thesis using len by simp
qed

lemma encodeLoop_keys:
  "e \<in> set (encodeLoop m lab kvs) \<Longrightarrow>
     val e = 1 \<and> (\<exists>k v. (k, v) \<in> set kvs \<and> map_of m (byteJoin k v lab CHR ''-'') = Some (key e))"
proof (induction m lab kvs rule: encodeLoop.induct)
  case (1 m lab)
  then show ?case by simp
next
  case (2 m lab k v rest)
  show ?case
  proof (cases "map_of m (byteJoin k v lab CHR ''-'')")
    case None
    then have "e \<in> set (encodeLoop m lab rest)" using "2.prems" by simp
    from "2.IH"(1) [OF None this] show ?thesis by auto
  next
    case (Some ret)
    then consider "e = \<lparr>key = ret, val = 1\<rparr>" | "e \<in> set (encodeLoop m lab rest)"
      using "2.prems" by auto
    then show ?thesis
    proof cases
      case 1
      then show ?thesis using Some by auto
    next
      case 2
      from "2.IH"(2) [OF Some this] show ?thesis by auto
    qed
  qed
qed

lemma encodeLoop_member:
  "(k, v) \<in> set kvs \<Longrightarrow> map_of m (byteJoin k v lab CHR ''-'') = Some p \<Longrightarrow>
     \<lparr>key = p, val = 1\<rparr> \<in> set (encodeLoop m lab kvs)"
  by (induction m lab kvs rule: encodeLoop.induct) (auto split: option.splits)

text \<open>
  For a classifier with an indexed mapping whose cardinality exceeds the number of
  distinct first fields, every entry of a GIS encoding has an index within the weight
  vector and a positive value.
\<close>

lemma encodeGIS_entries:
  assumes "indexedMap (mapping m)"
    and "cardinality m = int (card (firstField ` fst ` set (mapping m))) + 1"
    and "e \<in> set (encodeGIS m feats lab)"
  shows "key e \<le> length (mapping m) \<and> 1 \<le> val e"
proof -
  from assms(3) consider "e \<in> set (encode m feats lab)"
    | "e = \<lparr>key = length (mapping m), val = cardinality m - int (length (encode m feats lab))\<rparr>"
    by (auto simp: encodeGIS_unfold)
  then show ?thesis
  proof cases
    case 1
    then obtain k v where "map_of (mapping m) (byteJoin k v lab CHR ''-'') = Some (key e)"
      and "val e = 1"
      unfolding encode_def using encodeLoop_keys by blast
    then show ?thesis using indexedMap_lookup [OF assms(1)] by fastforce
  next
    case 2
    then show ?thesis
      using encode_length_bound [of m feats lab] assms(2) by simp
  qed
qed

section \<open>Properties of the empirical counts\<close>

lemma countVec_nth: "countVec v \<Longrightarrow> j < length v \<Longrightarrow> v ! j = Fin (finVal (v ! j)) \<and> 0 \<le> finVal (v ! j)"
  unfolding countVec_def by (simp add: list_all_length isFin_conv[symmetric])

lemma vecAdd_count:
  assumes "countVec v" and "i < length v" and "0 \<le> a"
  shows "vecAdd v i (Fin a) = Some (v[i := Fin (finVal (v ! i) + a)]) \<and>
         countVec (v[i := Fin (finVal (v ! i) + a)])"
proof -
  obtain b where b: "v ! i = Fin b" and nn: "0 \<le> finVal (v ! i)"
    using countVec_nth [OF assms(1,2)] by blast
  have "fadd (v ! i) (Fin a) = Fin (finVal (v ! i) + a)"
    unfolding b by simp
  moreover have "countVec (v[i := Fin (finVal (v ! i) + a)])"
    using assms nn unfolding countVec_def by (simp add: list_all_length nth_list_update)
  ultimately show ?thesis using assms(2) by (simp add: vecAdd_def)
qed

lemma addCounts_counts:
  "countVec count \<Longrightarrow> \<forall>e \<in> set encs. key e < length count \<and> 0 \<le> val e \<Longrightarrow>
     \<exists>c'. addCounts count encs = Some c' \<and> length c' = length count \<and> countVec c' \<and>
          (\<forall>j < length count. finVal (count ! j) \<le> finVal (c' ! j)) \<and>
          (\<forall>e \<in> set encs. real_of_int (val e) \<le> finVal (c' ! key e))"
proof (induction encs arbitrary: count)
  case Nil
  then show ?case by simp
next
  case (Cons en encs)
  define c1 where "c1 = count[key en := Fin (finVal (count ! key en) + real_of_int (val en))]"
  have k: "key en < length count" and v: "0 \<le> real_of_int (val en)"
    using Cons.prems(2) by simp_all
  have step: "vecAdd count (key en) (fromInt (val en)) = Some c1" and cv: "countVec c1"
    using vecAdd_count [OF Cons.prems(1) k v] unfolding c1_def fromInt_def by simp_all
  have len1: "length c1 = length count" unfolding c1_def by simp
  have "\<forall>e \<in> set encs. key e < length c1 \<and> 0 \<le> val e"
    using Cons.prems(2) len1 by simp
  from Cons.IH [OF cv this] obtain c' where c': "addCounts c1 encs = Some c'"
    "length c' = length c1" "countVec c'"
    "\<forall>j < length c1. finVal (c1 ! j) \<le> finVal (c' ! j)"
    "\<forall>e \<in> set encs. real_of_int (val e) \<le> finVal (c' ! key e)"
    by blast
  have mono1: "finVal (count ! j) \<le> finVal (c1 ! j)" if "j < length count" for j
    using that v unfolding c1_def by (cases "j = key en") simp_all
  have nn: "0 \<le> finVal (count ! key en)"
    using countVec_nth [OF Cons.prems(1) k] by simp
  have "real_of_int (val en) \<le> finVal (c1 ! key en)"
    unfolding c1_def using k nn by simp
  also have "\<dots> \<le> finVal (c' ! key en)" using c'(4) k len1 by simp
  finally have this_one: "real_of_int (val en) \<le> finVal (c' ! key en)" .
  have mono: "\<forall>j < length count. finVal (count ! j) \<le> finVal (c' ! j)"
    using mono1 c'(4) len1 by (metis order_trans)
  show ?case
    using step c'(1,2,3,5) len1 mono this_one by simp
qed

lemma empiricalLoop_counts:
  "countVec count \<Longrightarrow>
   \<forall>entry \<in> set corpus. \<forall>e \<in> set (encodeGIS enc (features entry) (label entry)).
      key e < length count \<and> 0 \<le> val e \<Longrightarrow>
     \<exists>c'. empiricalLoop count enc corpus = Some c' \<and> length c' = length count \<and> countVec c' \<and>
          (\<forall>j < length count. finVal (count ! j) \<le> finVal (c' ! j)) \<and>
          (\<forall>entry \<in> set corpus. \<forall>e \<in> set (encodeGIS enc (features entry) (label entry)).
             real_of_int (val e) \<le> finVal (c' ! key e))"
proof (induction corpus arbitrary: count)
  case Nil
  then show ?case by simp
next
  case (Cons entry corpus)
  let ?encs = "encodeGIS enc (features entry) (label entry)"
  have "\<forall>e \<in> set ?encs. key e < length count \<and> 0 \<le> val e"
    using Cons.prems(2) by simp
  from addCounts_counts [OF Cons.prems(1) this] obtain c1 where c1:
    "addCounts count ?encs = Some c1" "length c1 = length count" "countVec c1"
    "\<forall>j < length count. finVal (count ! j) \<le> finVal (c1 ! j)"
    "\<forall>e \<in> set ?encs. real_of_int (val e) \<le> finVal (c1 ! key e)"
    by blast
  have "\<forall>entry \<in> set corpus. \<forall>e \<in> set (encodeGIS enc (features entry) (label entry)).
      key e < length c1 \<and> 0 \<le> val e"
    using Cons.prems(2) c1(2) by simp
  from Cons.IH [OF c1(3) this] obtain c' where c':
    "empiricalLoop c1 enc corpus = Some c'" "length c' = length c1" "countVec c'"
    "\<forall>j < length c1. finVal (c1 ! j) \<le> finVal (c' ! j)"
    "\<forall>entry \<in> set corpus. \<forall>e \<in> set (encodeGIS enc (features entry) (label entry)).
       real_of_int (val e) \<le> finVal (c' ! key e)"
    by blast
  have mono: "\<forall>j < length count. finVal (count ! j) \<le> finVal (c' ! j)"
    using c1(2,4) c'(4) by (metis order_trans)
  have first: "\<forall>e \<in> set ?encs. real_of_int (val e) \<le> finVal (c' ! key e)"
  proof
    fix e assume e: "e \<in> set ?encs"
    then have "key e < length c1" using Cons.prems(2) c1(2) by simp
    then have "finVal (c1 ! key e) \<le> finVal (c' ! key e)" using c'(4) by simp
    then show "real_of_int (val e) \<le> finVal (c' ! key e)" using c1(5) e by force
  qed
  show ?case
    using c1(1,2) c'(1,2,3,5) mono first by simp
qed

lemma countVec_zeros: "countVec (replicate n (Fin 0))"
  by (simp add: countVec_def list_all_length)

lemma encodeCorpus_entries:
  assumes "e \<in> set (encodeGIS (encodeCorpus corpus) feats lab)"
  shows "key e \<le> length (mapping (encodeCorpus corpus)) \<and> 1 \<le> val e"
  using encodeGIS_entries [OF _ encodeCorpus_cardinality assms] encodeCorpus_mapping by blast

text \<open>
  The empirical counts exist for every corpus, one per mapped key plus one, and each
  is a finite non-negative number.
\<close>

lemma empiricalCount_total:
  "\<exists>emp. empiricalCount corpus (encodeCorpus corpus) = Some emp \<and>
     length emp = length (mapping (encodeCorpus corpus)) + 1 \<and> countVec emp \<and>
     (\<forall>entry \<in> set corpus.
        \<forall>e \<in> set (encodeGIS (encodeCorpus corpus) (features entry) (label entry)).
          real_of_int (val e) \<le> finVal (emp ! key e))"
proof -
  let ?enc = "encodeCorpus corpus"
  let ?zero = "replicate (length (mapping ?enc) + 1) (Fin 0)"
  have "\<forall>entry \<in> set corpus. \<forall>e \<in> set (encodeGIS ?enc (features entry) (label entry)).
      key e < length ?zero \<and> 0 \<le> val e"
    using encodeCorpus_entries by fastforce
  from empiricalLoop_counts [OF countVec_zeros this]
  show ?thesis unfolding empiricalCount_def by auto
qed

text \<open>
  Every key of the vocabulary is registered by a corpus entry under that entry's own
  label, and a non-empty corpus gives the correction index a positive count: no
  empirical count of a non-empty corpus is zero.
\<close>

lemma empiricalCount_attested:
  assumes "corpus \<noteq> []" and "empiricalCount corpus (encodeCorpus corpus) = Some emp"
    and "p < length emp"
  shows "emp ! p = Fin (finVal (emp ! p)) \<and> 1 \<le> finVal (emp ! p)"
proof -
  let ?enc = "encodeCorpus corpus"
  let ?M = "mapping ?enc"
  from empiricalCount_total [of corpus] assms(2) have len: "length emp = length ?M + 1"
    and cv: "countVec emp"
    and low: "\<forall>entry \<in> set corpus. \<forall>e \<in> set (encodeGIS ?enc (features entry) (label entry)).
          real_of_int (val e) \<le> finVal (emp ! key e)"
    by auto
  have im: "indexedMap ?M" and keys: "fst ` set ?M = (\<Union>entry \<in> set corpus. set (entryKeys entry))"
    using encodeCorpus_mapping by blast+
  have "\<exists>entry \<in> set corpus. \<exists>e \<in> set (encodeGIS ?enc (features entry) (label entry)).
      key e = p \<and> 1 \<le> val e"
  proof (cases "p < length ?M")
    case True
    then have "fst (?M ! p) \<in> fst ` set ?M" by simp
    then obtain entry where entry: "entry \<in> set corpus" "fst (?M ! p) \<in> set (entryKeys entry)"
      using keys by auto
    then obtain k v where kv: "(k, v) \<in> set (zip featureOrder (features entry))"
      "fst (?M ! p) = byteJoin k v (label entry) CHR ''-''"
      unfolding entryKeys_def by auto
    have "map_of ?M (byteJoin k v (label entry) CHR ''-'') = Some p"
      using indexedMap_nth [OF im True] kv(2) by simp
    from encodeLoop_member [OF kv(1) this]
    have "\<lparr>key = p, val = 1\<rparr> \<in> set (encodeGIS ?enc (features entry) (label entry))"
      by (simp add: encodeGIS_unfold encode_def)
    then show ?thesis using entry(1) by force
  next
    case False
    then have p: "p = length ?M" using assms(3) len by simp
    obtain entry where entry: "entry \<in> set corpus" using assms(1) by (cases corpus) auto
    let ?e = "\<lparr>key = length ?M,
        val = cardinality ?enc - int (length (encode ?enc (features entry) (label entry)))\<rparr>"
    have mem: "?e \<in> set (encodeGIS ?enc (features entry) (label entry))"
      by (simp add: encodeGIS_unfold)
    from encodeCorpus_entries [OF this] have "1 \<le> val ?e" by simp
    then show ?thesis using entry mem p by (metis encodedValue.select_convs(1))
  qed
  then obtain entry e where "entry \<in> set corpus"
    "e \<in> set (encodeGIS ?enc (features entry) (label entry))" "key e = p" "1 \<le> val e"
    by blast
  then have "1 \<le> finVal (emp ! p)" using low by fastforce
  then show ?thesis using countVec_nth [OF cv assms(3)] by simp
qed

section \<open>Properties of the training rounds\<close>

lemma weightedSum_total:
  "\<forall>e \<in> set v. key e < length ws \<Longrightarrow> \<exists>t. weightedSum ws tot v = Some t"
  by (induction v arbitrary: tot) (auto simp: index_def)

lemma put_subset: "set (put k v m) \<subseteq> insert (k, v) (set m)"
  by (induction m) (auto split: if_splits)

lemma scoreLabels_total:
  assumes "\<forall>lab. \<forall>e \<in> set (encodeGIS m feats lab). key e < length (weights m)"
  shows "\<forall>(l, pe) \<in> set scores. \<forall>e \<in> set (vec pe). key e < length (weights m) \<Longrightarrow>
     \<exists>s'. scoreLabels m feats scores ls = Some s' \<and>
          (\<forall>(l, pe) \<in> set s'. \<forall>e \<in> set (vec pe). key e < length (weights m))"
proof (induction ls arbitrary: scores)
  case Nil
  then show ?case by simp
next
  case (Cons l ls)
  let ?v = "encodeGIS m feats l"
  have b: "\<forall>e \<in> set ?v. key e < length (weights m)" using assms by blast
  from weightedSum_total [OF this] obtain t where t: "weightedSum (weights m) (Fin 0) ?v = Some t"
    by blast
  have "\<forall>(l', pe) \<in> set (put l \<lparr>prob = t, vec = ?v\<rparr> scores).
      \<forall>e \<in> set (vec pe). key e < length (weights m)"
  proof (clarify)
    fix l' pe e
    assume "(l', pe) \<in> set (put l \<lparr>prob = t, vec = ?v\<rparr> scores)" and e: "e \<in> set (vec pe)"
    then consider "pe = \<lparr>prob = t, vec = ?v\<rparr>" | "(l', pe) \<in> set scores"
      using put_subset [of l "\<lparr>prob = t, vec = ?v\<rparr>" scores] by blast
    then show "key e < length (weights m)"
    proof cases
      case 1
      then show ?thesis using b e by simp
    next
      case 2
      then show ?thesis using Cons.prems e by blast
    qed
  qed
  from Cons.IH [OF this] show ?case
    using t by (simp add: Let_def)
qed

lemma newMappedProbDist_vecs:
  "(\<lambda>(l, pe). vec pe) ` set (dict (newMappedProbDist d b)) = (\<lambda>(l, pe). vec pe) ` set d"
  unfolding newMappedProbDist_def by (auto simp: Let_def image_iff split: if_splits) force+

lemma probClassify_total:
  assumes "\<forall>lab. \<forall>e \<in> set (encodeGIS m feats lab). key e < length (weights m)"
  shows "\<exists>pd. probClassify m feats = Some pd \<and>
     (\<forall>(l, pe) \<in> set (dict pd). \<forall>e \<in> set (vec pe). key e < length (weights m))"
proof -
  have "\<forall>(l, pe) \<in> set []. \<forall>e \<in> set (vec pe). key e < length (weights m)" by simp
  from scoreLabels_total [OF assms this, of "labels m"] obtain s'
    where s': "scoreLabels m feats [] (labels m) = Some s'"
      "\<forall>(l, pe) \<in> set s'. \<forall>e \<in> set (vec pe). key e < length (weights m)"
    by blast
  have "\<forall>(l, pe) \<in> set (dict (newMappedProbDist s' True)).
      \<forall>e \<in> set (vec pe). key e < length (weights m)"
  proof (clarify)
    fix l pe e assume a: "(l, pe) \<in> set (dict (newMappedProbDist s' True))" "e \<in> set (vec pe)"
    then have "vec pe \<in> (\<lambda>(l, pe). vec pe) ` set (dict (newMappedProbDist s' True))"
      by force
    then have "vec pe \<in> (\<lambda>(l, pe). vec pe) ` set s'"
      unfolding newMappedProbDist_vecs .
    then show "key e < length (weights m)" using s'(2) a(2) by force
  qed
  then show ?thesis using s'(1) by (simp add: probClassify_def)
qed

lemma vecAdd_total: "i < length v \<Longrightarrow> \<exists>v'. vecAdd v i x = Some v' \<and> length v' = length v"
  by (simp add: vecAdd_def)

lemma addScaled_total:
  "\<forall>e \<in> set v. key e < length count \<Longrightarrow>
     \<exists>c'. addScaled count p v = Some c' \<and> length c' = length count"
proof (induction v arbitrary: count)
  case Nil
  then show ?case by simp
next
  case (Cons en v)
  have "key en < length count" using Cons.prems by simp
  from vecAdd_total [OF this] obtain c1
    where c1: "vecAdd count (key en) (fmul p (fromInt (val en))) = Some c1"
      "length c1 = length count" by blast
  have "\<forall>e \<in> set v. key e < length c1" using Cons.prems c1(2) by simp
  from Cons.IH [OF this] show ?case using c1 by auto
qed

lemma addExpected_total:
  "\<forall>(l, pe) \<in> set d. \<forall>e \<in> set (vec pe). key e < length count \<Longrightarrow>
     \<exists>c'. addExpected count d = Some c' \<and> length c' = length count"
proof (induction d arbitrary: count)
  case Nil
  then show ?case by simp
next
  case (Cons lp d)
  obtain l pe where lp: "lp = (l, pe)" by (cases lp)
  have "\<forall>e \<in> set (vec pe). key e < length count" using Cons.prems lp by simp
  from addScaled_total [OF this] obtain c1
    where c1: "addScaled count (pow2 (prob pe)) (vec pe) = Some c1" "length c1 = length count"
    by blast
  have "\<forall>(l, pe) \<in> set d. \<forall>e \<in> set (vec pe). key e < length c1"
    using Cons.prems c1(2) by simp
  from Cons.IH [OF this] show ?case using c1 lp by auto
qed

lemma estLoop_total:
  assumes "\<forall>feats lab. \<forall>e \<in> set (encodeGIS m feats lab). key e < length (weights m)"
  shows "length count = length (weights m) \<Longrightarrow>
     \<exists>c'. estLoop count m corpus = Some c' \<and> length c' = length count"
proof (induction corpus arbitrary: count)
  case Nil
  then show ?case by simp
next
  case (Cons entry corpus)
  have "\<forall>lab. \<forall>e \<in> set (encodeGIS m (features entry) lab). key e < length (weights m)"
    using assms by blast
  from probClassify_total [OF this] obtain pd
    where pd: "probClassify m (features entry) = Some pd"
      "\<forall>(l, pe) \<in> set (dict pd). \<forall>e \<in> set (vec pe). key e < length (weights m)"
    by blast
  have "\<forall>(l, pe) \<in> set (dict pd). \<forall>e \<in> set (vec pe). key e < length count"
    using pd(2) Cons.prems by simp
  from addExpected_total [OF this] obtain c1
    where c1: "addExpected count (dict pd) = Some c1" "length c1 = length count" by blast
  have "length c1 = length (weights m)" using c1(2) Cons.prems by simp
  from Cons.IH [OF this] show ?case using pd(1) c1 by auto
qed

text \<open>
  A classifier is ready for a round when its mapping is indexed, its cardinality is
  the number of distinct first fields plus one, and it has one weight per mapped key
  plus one.
\<close>

lemma gisRound_total:
  assumes im: "indexedMap (mapping m)"
    and card: "cardinality m = int (card (firstField ` fst ` set (mapping m))) + 1"
    and lw: "length (weights m) = length (mapping m) + 1"
    and le: "length empfreq = length (mapping m) + 1"
  shows "\<exists>ws. gisRound m corpus empfreq cInv [] = Some (m\<lparr>weights := ws\<rparr>) \<and>
     length ws = length (mapping m) + 1"
proof -
  have keys: "\<forall>feats lab. \<forall>e \<in> set (encodeGIS m feats lab). key e < length (weights m)"
    using encodeGIS_entries [OF im card] lw by fastforce
  have "length (replicate (length (mapping m) + 1) (Fin 0)) = length (weights m)"
    using lw by simp
  from estLoop_total [OF keys this, of corpus] obtain est
    where est: "estCount m corpus m = Some est" "length est = length (mapping m) + 1"
    unfolding estCount_def by auto
  have sub: "subVec empfreq (map log2 est) = Some (map2 fsub empfreq (map log2 est))"
    using le est(2) by (simp add: subVec_def)
  define delta where "delta = scaleVec cInv (map2 fsub empfreq (map log2 est))"
  have ld: "length delta = length (mapping m) + 1"
    unfolding delta_def scaleVec_def using le est(2) by simp
  have add: "addToWeights (weights m) delta = Some (map2 fadd (weights m) delta)"
    using lw ld by (simp add: addToWeights_def)
  have "gisRound m corpus empfreq cInv [] = Some (m\<lparr>weights := map2 fadd (weights m) delta\<rparr>)"
    unfolding gisRound_def using est(1) sub add delta_def by simp
  moreover have "length (map2 fadd (weights m) delta) = length (mapping m) + 1"
    using lw ld by simp
  ultimately show ?thesis by blast
qed

lemma gisRounds_total:
  "indexedMap (mapping m) \<Longrightarrow>
   cardinality m = int (card (firstField ` fst ` set (mapping m))) + 1 \<Longrightarrow>
   length empfreq = length (mapping m) + 1 \<Longrightarrow>
   length (weights m) = length (mapping m) + 1 \<Longrightarrow>
     \<exists>ws. gisRounds k m corpus empfreq cInv [] = Some (m\<lparr>weights := ws\<rparr>) \<and>
          length ws = length (mapping m) + 1"
proof (induction k arbitrary: m)
  case 0
  have "m = m\<lparr>weights := weights m\<rparr>" by simp
  then show ?case using "0.prems"(4) by (metis gisRounds.simps(1))
next
  case (Suc k)
  from gisRound_total [OF Suc.prems(1,2,4,3), of corpus cInv] obtain ws1
    where r: "gisRound m corpus empfreq cInv [] = Some (m\<lparr>weights := ws1\<rparr>)"
      "length ws1 = length (mapping m) + 1" by blast
  let ?m1 = "m\<lparr>weights := ws1\<rparr>"
  have "\<exists>ws. gisRounds k ?m1 corpus empfreq cInv [] = Some (?m1\<lparr>weights := ws\<rparr>) \<and>
      length ws = length (mapping ?m1) + 1"
    using Suc.prems r(2) by (intro Suc.IH) simp_all
  then show ?case using r(1) by auto
qed

lemma gisRounds_add:
  "gisRounds (j + k) m corpus empfreq cInv un =
     (case gisRounds j m corpus empfreq cInv un of
        None \<Rightarrow> None
      | Some m' \<Rightarrow> gisRounds k m' corpus empfreq cInv un)"
proof (induction j arbitrary: m)
  case 0
  show ?case by simp
next
  case (Suc j)
  show ?case
    by (cases "gisRound m corpus empfreq cInv un") (simp_all add: Suc.IH)
qed



lemma initialWeights_length: "length (initialWeights rows un) = rows"
proof -
  have "length (foldl (\<lambda>w idx. w[idx := NInf]) w un) = length w" for w :: "float64 list"
    by (induction un arbitrary: w) simp_all
  then show ?thesis by (simp add: initialWeights_def)
qed

text \<open>The empty corpus: one index, the correction index, which is unattested.\<close>

lemma encodeCorpus_empty:
  "encodeCorpus [] = \<lparr>cardinality = 1, labels = [], mapping = [], weights = []\<rparr>"
  by (simp add: encodeCorpus_def newMaxentClassifier_def)

lemma empiricalCount_empty: "empiricalCount [] (encodeCorpus []) = Some [Fin 0]"
  by (simp add: empiricalCount_def encodeCorpus_empty)

lemma gisRound_empty:
  "gisRound \<lparr>cardinality = 1, labels = [], mapping = [], weights = [NInf]\<rparr> [] [NInf] (Fin 1) [0] =
     Some \<lparr>cardinality = 1, labels = [], mapping = [], weights = [NInf]\<rparr>"
  by (simp add: gisRound_def estCount_def vecAdd_def subVec_def scaleVec_def addToWeights_def
      fsub_def)

lemma gisRounds_empty:
  "gisRounds k \<lparr>cardinality = 1, labels = [], mapping = [], weights = [NInf]\<rparr> [] [NInf] (Fin 1) [0] =
     Some \<lparr>cardinality = 1, labels = [], mapping = [], weights = [NInf]\<rparr>"
  by (induction k) (simp_all add: gisRound_empty)

lemma gisTrain_empty:
  "gisTrain k [] = Some \<lparr>cardinality = 1, labels = [], mapping = [], weights = [NInf]\<rparr>"
proof -
  have "empiricalCount [] \<lparr>cardinality = 1, labels = [], mapping = [], weights = []\<rparr> =
      Some [Fin 0]"
    using empiricalCount_empty unfolding encodeCorpus_empty .
  then show ?thesis
    unfolding gisTrain_def encodeCorpus_empty
    by (simp add: unattestedOf_def initialWeights_def fromInt_def gisRounds_empty)
qed

text \<open>A non-empty corpus: no unattested index, and every round returns.\<close>

lemma gisTrain_nonempty:
  assumes "corpus \<noteq> []" and "empiricalCount corpus (encodeCorpus corpus) = Some emp"
  shows "unattestedOf emp = [] \<and>
         (\<exists>ws. gisTrain k corpus = Some ((encodeCorpus corpus)\<lparr>weights := ws\<rparr>) \<and>
               length ws = length emp)"
proof -
  let ?enc = "encodeCorpus corpus"
  have att: "\<forall>p < length emp. emp ! p \<noteq> Fin 0"
    using empiricalCount_attested [OF assms] by (metis float64.inject not_one_le_zero)
  then have un: "unattestedOf emp = []"
    unfolding unattestedOf_def by (simp add: filter_empty_conv)
  have len: "length emp = length (mapping ?enc) + 1"
    using empiricalCount_total [of corpus] assms(2) by simp
  let ?m = "?enc\<lparr>weights := initialWeights (length emp) []\<rparr>"
  have "\<exists>ws. gisRounds k ?m corpus (map log2 emp)
        (fdiv (Fin 1) (fromInt (cardinality ?enc))) [] = Some (?m\<lparr>weights := ws\<rparr>) \<and>
      length ws = length (mapping ?m) + 1"
    using encodeCorpus_mapping [of corpus] encodeCorpus_cardinality [of corpus] len
    by (intro gisRounds_total) (simp_all add: initialWeights_length)
  then show ?thesis
    unfolding gisTrain_def using assms(2) un len by (auto simp: Let_def)
qed

text \<open>
  Claim C1. For every corpus the empirical counts exist, and after any number of
  rounds the classifier exists, has one weight per count, and has weight negative
  infinity at every index whose empirical count is zero. The classifier returned by
  \<open>extracterFromData\<close> is the one after 100 rounds.
\<close>

theorem unattested_weights_stay_NInf:
  "\<exists>emp. empiricalCount corpus (encodeCorpus corpus) = Some emp \<and>
     (\<forall>k. \<exists>c. gisTrain k corpus = Some c \<and> length (weights c) = length emp \<and>
        (\<forall>i < length emp. emp ! i = Fin 0 \<longrightarrow> weights c ! i = NInf)) \<and>
     extracterFromData corpus = gisTrain 100 corpus"
proof (cases "corpus = []")
  case True
  then show ?thesis
    by (simp add: empiricalCount_empty gisTrain_empty extracterFromData_def)
next
  case False
  obtain emp where emp: "empiricalCount corpus (encodeCorpus corpus) = Some emp"
    using empiricalCount_total [of corpus] by blast
  have att: "\<forall>p < length emp. emp ! p \<noteq> Fin 0"
    using empiricalCount_attested [OF False emp] by (metis float64.inject not_one_le_zero)
  have "\<exists>c. gisTrain k corpus = Some c \<and> length (weights c) = length emp \<and>
        (\<forall>i < length emp. emp ! i = Fin 0 \<longrightarrow> weights c ! i = NInf)" for k
    using gisTrain_nonempty [OF False emp, of k] att by auto
  then show ?thesis
    using emp by (simp add: extracterFromData_def)
qed

theorem unattested_weights_stay_NInf_witness:
  "empiricalCount [] (encodeCorpus []) = Some [Fin 0] \<and>
   (\<exists>c. extracterFromData [] = Some c \<and> weights c = [NInf])"
proof -
  from unattested_weights_stay_NInf [of "[]"] obtain emp
    where emp: "empiricalCount [] (encodeCorpus []) = Some emp"
      and rounds: "\<forall>k. \<exists>c. gisTrain k [] = Some c \<and> length (weights c) = length emp \<and>
        (\<forall>i < length emp. emp ! i = Fin 0 \<longrightarrow> weights c ! i = NInf)"
      and ex: "extracterFromData [] = gisTrain 100 []"
    by blast
  have e: "emp = [Fin 0]" using emp by (simp add: empiricalCount_empty)
  from rounds obtain c where c: "gisTrain 100 [] = Some c" "length (weights c) = length emp"
    "\<forall>i < length emp. emp ! i = Fin 0 \<longrightarrow> weights c ! i = NInf"
    by blast
  have "weights c ! 0 = NInf" using c(3) e by simp
  moreover have "length (weights c) = 1" using c(2) e by simp
  ultimately have "weights c = [NInf]"
    by (cases "weights c") simp_all
  then show ?thesis using c(1) ex emp e by simp
qed








end
